theory Spec2Isabelle
  imports Main "HOL-Library.Word" "HOL-Library.Sublist"
begin

section \<open>Storage, C strings and the output stream\<close>

text \<open>
  The program keeps the address of a connection in a character array it allocates
  itself (\<^verbatim>\<open>new char[strlen(ip) + 1]\<close>) and reaches it through a \<^verbatim>\<open>char*\<close>.
  Claims about copies and aliasing are claims about which array a pointer names, so
  the arrays are kept in an explicit store: the store is the list of all character
  arrays ever created, an array is named by its position in that list, and a pointer
  is an array together with an offset into it. Nothing in the program releases an
  array (\<^verbatim>\<open>network.h\<close> declares no destructor for \<^verbatim>\<open>TCPConnection\<close>), so a new array
  always goes to the end of the list and never reuses the name of an old one.

  A cell that was allocated but never written holds \<open>None\<close>; reading it is undefined
  behaviour, as is reading outside an array or through the null pointer.
\<close>

datatype error = InvalidArgument | Undefined

datatype ptr = Null | Ptr nat nat

type_synonym cell = "char option"

abbreviation NUL :: char where
  "NUL \<equiv> CHR 0x00"

text \<open>\<^verbatim>\<open>class TCPConnection { char* ipAddress; int port; }\<close> (network.h, lines 8 to 15).\<close>

record TCPConnection =
  ipAddress :: ptr
  port :: "32 word"

text \<open>
  The state of a run: the character arrays, the \<^verbatim>\<open>TCPConnection\<close> objects created
  with \<^verbatim>\<open>new\<close> (named by their position, like the arrays), and the text written to
  \<^verbatim>\<open>std::cout\<close> so far.
\<close>

record world =
  arrays :: "cell list list"
  objects :: "TCPConnection list"
  cout :: string

text \<open>The characters of a C string: everything before the first NUL.\<close>

fun c_scan :: "cell list \<Rightarrow> string option" where
  "c_scan [] = None"
| "c_scan (None # cs) = None"
| "c_scan (Some c # cs) =
     (if c = NUL then Some [] else map_option ((#) c) (c_scan cs))"

definition c_str :: "world \<Rightarrow> ptr \<Rightarrow> error + string" where
  "c_str w p =
     (case p of
        Null \<Rightarrow> Inl Undefined
      | Ptr a i \<Rightarrow>
          if a < length (arrays w)
          then (case c_scan (drop i (arrays w ! a)) of
                  None \<Rightarrow> Inl Undefined
                | Some s \<Rightarrow> Inr s)
          else Inl Undefined)"

text \<open>\<^verbatim>\<open>strlen\<close> of the C library.\<close>

definition strlen :: "world \<Rightarrow> ptr \<Rightarrow> error + nat" where
  "strlen w p = (case c_str w p of Inl e \<Rightarrow> Inl e | Inr s \<Rightarrow> Inr (length s))"

text \<open>\<^verbatim>\<open>new char[n]\<close>: a fresh array of \<open>n\<close> cells, none of them written yet.\<close>

definition new_char_array :: "nat \<Rightarrow> world \<Rightarrow> ptr \<times> world" where
  "new_char_array n w =
     (Ptr (length (arrays w)) 0, w\<lparr>arrays := arrays w @ [replicate n None]\<rparr>)"

text \<open>
  \<^verbatim>\<open>strcpy(dst, src)\<close> of the C library: the characters of \<open>src\<close> and the closing NUL
  are written at \<open>dst\<close>. Writing past the end of the destination array, or copying
  between overlapping ranges, is undefined behaviour.
\<close>

definition overlapping :: "ptr \<Rightarrow> ptr \<Rightarrow> nat \<Rightarrow> bool" where
  "overlapping dst src n =
     (case (dst, src) of
        (Ptr a i, Ptr b j) \<Rightarrow> a = b \<and> i < j + n \<and> j < i + n
      | _ \<Rightarrow> False)"

definition strcpy :: "ptr \<Rightarrow> ptr \<Rightarrow> world \<Rightarrow> error + world" where
  "strcpy dst src w =
     (case c_str w src of
        Inl e \<Rightarrow> Inl e
      | Inr s \<Rightarrow>
          (case dst of
             Null \<Rightarrow> Inl Undefined
           | Ptr a i \<Rightarrow>
               if a < length (arrays w)
                  \<and> i + length s + 1 \<le> length (arrays w ! a)
                  \<and> \<not> overlapping dst src (length s + 1)
               then Inr (w\<lparr>arrays := (arrays w)
                      [a := take i (arrays w ! a) @ map Some (s @ [NUL])
                            @ drop (i + length s + 1) (arrays w ! a)]\<rparr>)
               else Inl Undefined))"

text \<open>
  A write of one character through a pointer (\<^verbatim>\<open>*p = c\<close>). The program itself never
  does this; it is what a caller does to its own buffer, and what the statements
  about aliasing quantify over.
\<close>

definition store_char :: "ptr \<Rightarrow> char \<Rightarrow> world \<Rightarrow> error + world" where
  "store_char p c w =
     (case p of
        Null \<Rightarrow> Inl Undefined
      | Ptr a i \<Rightarrow>
          if a < length (arrays w) \<and> i < length (arrays w ! a)
          then Inr (w\<lparr>arrays := (arrays w)[a := (arrays w ! a)[i := Some c]]\<rparr>)
          else Inl Undefined)"

fun store_chars :: "(ptr \<times> char) list \<Rightarrow> world \<Rightarrow> error + world" where
  "store_chars [] w = Inr w"
| "store_chars ((p, c) # ps) w =
     (case store_char p c w of Inl e \<Rightarrow> Inl e | Inr w1 \<Rightarrow> store_chars ps w1)"

text \<open>A pointer into one of the arrays of a state.\<close>

definition points_into :: "world \<Rightarrow> ptr \<Rightarrow> bool" where
  "points_into w p = (case p of Null \<Rightarrow> False | Ptr a i \<Rightarrow> a < length (arrays w))"

text \<open>
  A string literal is an array holding its characters and the closing NUL. Literals
  cannot be modified, so it makes no difference when the array comes into being; the
  model creates it where the literal is used.
\<close>

definition string_literal :: "string \<Rightarrow> world \<Rightarrow> ptr \<times> world" where
  "string_literal s w =
     (Ptr (length (arrays w)) 0, w\<lparr>arrays := arrays w @ [map Some (s @ [NUL])]\<rparr>)"

subsection \<open>Decimal numerals\<close>

definition digit_char :: "nat \<Rightarrow> char" where
  "digit_char d = char_of (of_char (CHR ''0'') + d)"

function show_nat :: "nat \<Rightarrow> string" where
  "show_nat n =
     (if n < 10 then [digit_char n]
      else show_nat (n div 10) @ [digit_char (n mod 10)])"
  by pat_completeness auto
termination
  by (relation "measure id") auto

declare show_nat.simps [simp del]

text \<open>What \<^verbatim>\<open>operator<<(int)\<close> writes for a stream in its initial formatting state.\<close>

definition show_int :: "int \<Rightarrow> string" where
  "show_int i = (if i < 0 then CHR ''-'' # show_nat (nat (- i)) else show_nat (nat i))"

subsection \<open>Writing to the stream\<close>

definition cout_text :: "string \<Rightarrow> world \<Rightarrow> world" where
  "cout_text s w = w\<lparr>cout := cout w @ s\<rparr>"

definition cout_c_str :: "ptr \<Rightarrow> world \<Rightarrow> error + world" where
  "cout_c_str p w = (case c_str w p of Inl e \<Rightarrow> Inl e | Inr s \<Rightarrow> Inr (cout_text s w))"

definition cout_int :: "32 word \<Rightarrow> world \<Rightarrow> world" where
  "cout_int i w = cout_text (show_int (sint i)) w"

definition endl :: "world \<Rightarrow> world" where
  "endl w = cout_text [CHR 0x0A] w"

section \<open>TCPConnection (network.h, network.cpp)\<close>

text \<open>
  \<^verbatim>\<open>TCPConnection::TCPConnection(const char* ip, int p) : port(p) {
      ipAddress = new char[strlen(ip) + 1];
      strcpy(ipAddress, ip);
  }\<close>
\<close>

definition TCPConnection_ctor ::
    "ptr \<Rightarrow> 32 word \<Rightarrow> world \<Rightarrow> error + (TCPConnection \<times> world)" where
  "TCPConnection_ctor ip p w =
     (case strlen w ip of
        Inl e \<Rightarrow> Inl e
      | Inr n \<Rightarrow>
          (case new_char_array (n + 1) w of
             (a, w1) \<Rightarrow>
               (case strcpy a ip w1 of
                  Inl e \<Rightarrow> Inl e
                | Inr w2 \<Rightarrow> Inr (\<lparr>ipAddress = a, port = p\<rparr>, w2))))"

text \<open>
  \<^verbatim>\<open>void TCPConnection::displayInfo() const {
      std::cout << "TCP Connection: " << ipAddress << ":" << port << std::endl;
  }\<close>
  The method is \<^verbatim>\<open>const\<close>: it receives the object and the state and returns the new
  state only.
\<close>

definition displayInfo :: "TCPConnection \<Rightarrow> world \<Rightarrow> error + world" where
  "displayInfo c w =
     (case cout_c_str (ipAddress c) (cout_text ''TCP Connection: '' w) of
        Inl e \<Rightarrow> Inl e
      | Inr w1 \<Rightarrow> Inr (endl (cout_int (port c) (cout_text '':'' w1))))"

text \<open>The line \<^verbatim>\<open>displayInfo\<close> is to write for an address text and a port.\<close>

definition info_line :: "string \<Rightarrow> 32 word \<Rightarrow> string" where
  "info_line s p = ''TCP Connection: '' @ s @ '':'' @ show_int (sint p) @ [CHR 0x0A]"

text \<open>
  \<^verbatim>\<open>network.h\<close> declares no copy constructor for \<^verbatim>\<open>TCPConnection\<close>, so copying an
  object (\<^verbatim>\<open>TCPConnection b(a)\<close>, \<^verbatim>\<open>new TCPConnection(*tcp)\<close>) runs the one the compiler
  supplies, which copies the members one by one: the pointer \<^verbatim>\<open>ipAddress\<close> and the
  \<^verbatim>\<open>int\<close> \<^verbatim>\<open>port\<close>. This is the only means of duplicating a connection the classes have.
\<close>

definition TCPConnection_copy :: "TCPConnection \<Rightarrow> TCPConnection" where
  "TCPConnection_copy other = \<lparr>ipAddress = ipAddress other, port = port other\<rparr>"

section \<open>The program (main.cpp)\<close>

text \<open>
  \<^verbatim>\<open>int main() {
      std::cout << "=== Network Monitor ===" << std::endl;
      printSystemInfo();
      TCPConnection conn("192.168.1.1", 8080);
      conn.displayInfo();
      std::cout << "Program completed successfully!" << std::endl;
      return 0;
  }\<close>
  \<^verbatim>\<open>printSystemInfo\<close> is declared in \<^verbatim>\<open>utils.h\<close>, which is not among the sources, so it
  is a parameter of the program: a function on the state that may also fail to return.
\<close>

definition main :: "(world \<Rightarrow> error + world) \<Rightarrow> world \<Rightarrow> error + (int \<times> world)" where
  "main printSystemInfo w =
     (case printSystemInfo (endl (cout_text ''=== Network Monitor ==='' w)) of
        Inl e \<Rightarrow> Inl e
      | Inr w1 \<Rightarrow>
          (case string_literal ''192.168.1.1'' w1 of
             (lit, w2) \<Rightarrow>
               (case TCPConnection_ctor lit 8080 w2 of
                  Inl e \<Rightarrow> Inl e
                | Inr (conn, w3) \<Rightarrow>
                    (case displayInfo conn w3 of
                       Inl e \<Rightarrow> Inl e
                     | Inr w4 \<Rightarrow>
                         Inr (0, endl (cout_text ''Program completed successfully!'' w4))))))"

section \<open>ConnectionHistory (README, Deep Copy Implementation)\<close>




text \<open>\<^verbatim>\<open>new TCPConnection(*tcp)\<close>: a new object, made by the copy constructor.\<close>

definition new_TCPConnection_copy :: "nat \<Rightarrow> world \<Rightarrow> nat \<times> world" where
  "new_TCPConnection_copy k w =
     (length (objects w), w\<lparr>objects := objects w @ [TCPConnection_copy (objects w ! k)]\<rparr>)"




section \<open>Address validation (README, IP Address Validation)\<close>

text \<open>
  \<^verbatim>\<open>bool isValidIPv4(const char* ip) {
      struct sockaddr_in sa;
      return inet_pton(AF_INET, ip, &(sa.sin_addr)) != 0;
  }\<close>
  \<^verbatim>\<open>inet_pton\<close> belongs to the C library. For \<^verbatim>\<open>AF_INET\<close> the GNU C library runs the
  loop below over the characters of the text (\<^verbatim>\<open>inet_pton4\<close> in \<^verbatim>\<open>resolv/inet_pton.c\<close>)
  and returns its result, 1 or 0:
  \<^verbatim>\<open>saw_digit = 0; octets = 0; *(tp = tmp) = 0;
  while (src < end) {
      ch = *src++;
      if (ch >= '0' && ch <= '9') {
          unsigned int new = *tp * 10 + (ch - '0');
          if (saw_digit && *tp == 0) return 0;
          if (new > 255) return 0;
          *tp = new;
          if (! saw_digit) { if (++octets > 4) return 0; saw_digit = 1; }
      } else if (ch == '.' && saw_digit) {
          if (octets == 4) return 0;
          *++tp = 0; saw_digit = 0;
      } else return 0;
  }
  if (octets < 4) return 0;
  memcpy (dst, tmp, NS_INADDRSZ); return 1;\<close>
  The model keeps \<^verbatim>\<open>saw_digit\<close>, \<^verbatim>\<open>octets\<close> and the octet under construction \<^verbatim>\<open>*tp\<close>; the
  finished octets only reach \<^verbatim>\<open>dst\<close>, which \<^verbatim>\<open>isValidIPv4\<close> never reads. The text is
  given by its characters (those before the closing NUL).
\<close>

definition is_digit :: "char \<Rightarrow> bool" where
  "is_digit ch = ((of_char (CHR ''0'') :: nat) \<le> of_char ch \<and> (of_char ch :: nat) \<le> of_char (CHR ''9''))"

definition digit_val :: "char \<Rightarrow> nat" where
  "digit_val ch = of_char ch - of_char (CHR ''0'')"

fun inet_pton4 :: "bool \<Rightarrow> nat \<Rightarrow> nat \<Rightarrow> string \<Rightarrow> int" where
  "inet_pton4 saw_digit octets tp [] = (if octets < 4 then 0 else 1)"
| "inet_pton4 saw_digit octets tp (ch # src) =
     (if is_digit ch then
        (let new = tp * 10 + digit_val ch in
         if saw_digit \<and> tp = 0 then 0
         else if new > 255 then 0
         else if \<not> saw_digit then
           (if octets + 1 > 4 then 0 else inet_pton4 True (octets + 1) new src)
         else inet_pton4 True octets new src)
      else if ch = CHR ''.'' \<and> saw_digit then
        (if octets = 4 then 0 else inet_pton4 False octets 0 src)
      else 0)"

definition inet_pton_AF_INET :: "string \<Rightarrow> int" where
  "inet_pton_AF_INET src = inet_pton4 False 0 0 src"

definition isValidIPv4 :: "string \<Rightarrow> bool" where
  "isValidIPv4 ip = (inet_pton_AF_INET ip \<noteq> 0)"

text \<open>
  Four numbers written the way \<^verbatim>\<open>operator<<\<close> writes them, without leading zeros, and
  separated by dots.
\<close>

definition dotted_quad :: "nat \<Rightarrow> nat \<Rightarrow> nat \<Rightarrow> nat \<Rightarrow> string" where
  "dotted_quad a b c d =
     show_nat a @ ''.'' @ show_nat b @ ''.'' @ show_nat c @ ''.'' @ show_nat d"

text \<open>The number a string of digits denotes, read from the left.\<close>

definition dec_val :: "string \<Rightarrow> nat" where
  "dec_val ds = foldl (\<lambda>a c. a * 10 + digit_val c) 0 ds"

text \<open>
  The spec's words, "four dot-separated decimal octets each in [0,255], no
  leading/trailing garbage, no extra segments": the text is cut at its dots; there are
  exactly four pieces; each piece is a non-empty string of digits that denotes a number
  up to 255.
\<close>

fun split_dots :: "string \<Rightarrow> string list" where
  "split_dots [] = [[]]"
| "split_dots (c # cs) =
     (if c = CHR ''.'' then [] # split_dots cs
      else (case split_dots cs of [] \<Rightarrow> [[c]] | seg # segs \<Rightarrow> (c # seg) # segs))"

definition decimal_octet :: "string \<Rightarrow> bool" where
  "decimal_octet seg = (seg \<noteq> [] \<and> list_all is_digit seg \<and> dec_val seg \<le> 255)"

definition four_decimal_octets :: "string \<Rightarrow> bool" where
  "four_decimal_octets t =
     (length (split_dots t) = 4 \<and> list_all decimal_octet (split_dots t))"

text \<open>
  What the loop of \<^verbatim>\<open>inet_pton4\<close> accepts once an octet is complete and \<open>octets\<close> of them
  have been read: the end of the text after the fourth octet, or a dot and what the
  loop accepts from the start of the next octet.
\<close>

definition octet_end :: "nat \<Rightarrow> string \<Rightarrow> bool" where
  "octet_end octets rest =
     ((rest = [] \<and> \<not> octets < 4)
      \<or> (\<exists>more. rest = CHR ''.'' # more \<and> octets \<noteq> 4 \<and> inet_pton4 False octets 0 more = 1))"

section \<open>Facts about the store\<close>

lemma c_scan_string: "NUL \<notin> set s \<Longrightarrow> c_scan (map Some s @ Some NUL # rest) = Some s"
  by (induction s) auto

lemma c_scan_SomeD:
  "c_scan cs = Some s \<Longrightarrow> NUL \<notin> set s \<and> (\<exists>rest. cs = map Some s @ Some NUL # rest)"
proof (induction cs arbitrary: s rule: c_scan.induct)
  case 1
  then show ?case by simp
next
  case (2 cs)
  then show ?case by simp
next
  case (3 c cs)
  show ?case
  proof (cases "c = NUL")
    case True
    with 3 show ?thesis by auto
  next
    case False
    with "3.prems" obtain t where t: "c_scan cs = Some t" "s = c # t"
      by auto
    from "3.IH" [OF False t(1)] False t(2) show ?thesis by auto
  qed
qed

lemma c_str_no_NUL: "c_str w p = Inr s \<Longrightarrow> NUL \<notin> set s"
  by (auto simp: c_str_def split: ptr.splits if_splits option.splits dest: c_scan_SomeD)

lemma c_str_old_array:
  assumes "c_str w p = Inr s"
  shows "\<exists>a i. p = Ptr a i \<and> a < length (arrays w)"
  using assms by (auto simp: c_str_def split: ptr.splits if_splits)

lemma c_str_cong_array:
  assumes "p = Ptr a i" "a < length (arrays w)" "a < length (arrays w')"
    and "arrays w' ! a = arrays w ! a"
  shows "c_str w' p = c_str w p"
  using assms by (simp add: c_str_def)

lemma c_str_fresh_copy:
  assumes "NUL \<notin> set s"
  shows "c_str (w\<lparr>arrays := arrays w @ [map Some (s @ [NUL])]\<rparr>) (Ptr (length (arrays w)) 0) = Inr s"
  using c_scan_string [OF assms, of "[]"] by (simp add: c_str_def)

lemma c_str_append_arrays:
  assumes "c_str w p = Inr s"
  shows "c_str (w\<lparr>arrays := arrays w @ xs\<rparr>) p = Inr s"
  using assms by (auto simp: c_str_def nth_append split: ptr.splits if_splits)

lemma ctor_result:
  assumes "c_str w ip = Inr s"
  shows "TCPConnection_ctor ip p w =
           Inr (\<lparr>ipAddress = Ptr (length (arrays w)) 0, port = p\<rparr>,
                w\<lparr>arrays := arrays w @ [map Some (s @ [NUL])]\<rparr>)"
proof -
  from assms obtain b j where ip: "ip = Ptr b j" and b: "b < length (arrays w)"
    using c_str_old_array by blast
  let ?n = "length s"
  let ?w1 = "w\<lparr>arrays := arrays w @ [replicate (?n + 1) None]\<rparr>"
  have len: "strlen w ip = Inr ?n"
    using assms by (simp add: strlen_def)
  have new: "new_char_array (?n + 1) w = (Ptr (length (arrays w)) 0, ?w1)"
    by (simp add: new_char_array_def)
  have src: "c_str ?w1 ip = Inr s"
    using assms by (rule c_str_append_arrays)
  have cpy: "strcpy (Ptr (length (arrays w)) 0) ip ?w1
               = Inr (w\<lparr>arrays := arrays w @ [map Some (s @ [NUL])]\<rparr>)"
    unfolding strcpy_def src using b by (simp add: overlapping_def ip)
  show ?thesis
    unfolding TCPConnection_ctor_def len sum.case new prod.case cpy by simp
qed

lemma ctor_undefined:
  assumes "c_str w ip = Inl e"
  shows "TCPConnection_ctor ip p w = Inl e"
  using assms by (simp add: TCPConnection_ctor_def strlen_def)

lemma c_str_error: "c_str w p = Inl e \<Longrightarrow> e = Undefined"
  by (auto simp: c_str_def split: ptr.splits if_splits option.splits)

lemma ctor_error:
  assumes "TCPConnection_ctor ip p w = Inl e"
  shows "e = Undefined"
proof (cases "c_str w ip")
  case (Inl e')
  with assms ctor_undefined [OF Inl, of p] c_str_error [OF Inl] show ?thesis by simp
next
  case (Inr s)
  with assms ctor_result [OF Inr, of p] show ?thesis by simp
qed

lemma c_str_cout [simp]: "c_str (w\<lparr>cout := t\<rparr>) p = c_str w p"
  by (simp add: c_str_def split: ptr.splits)

lemma displayInfo_result:
  assumes "c_str w (ipAddress c) = Inr s"
  shows "displayInfo c w = Inr (w\<lparr>cout := cout w @ info_line s (port c)\<rparr>)"
  using assms
  by (simp add: displayInfo_def cout_c_str_def cout_text_def cout_int_def endl_def
      info_line_def)

lemma displayInfo_InrD:
  assumes "displayInfo c w = Inr w'"
  shows "\<exists>s. c_str w (ipAddress c) = Inr s \<and> w' = w\<lparr>cout := cout w @ info_line s (port c)\<rparr>"
proof (cases "c_str w (ipAddress c)")
  case (Inl e)
  then have "displayInfo c w = Inl e"
    by (simp add: displayInfo_def cout_c_str_def cout_text_def)
  with assms show ?thesis by simp
next
  case (Inr s)
  with assms displayInfo_result [OF Inr] show ?thesis by simp
qed

section \<open>The connection and the program\<close>

lemma digit_char_numerals:
  "digit_char 0 = CHR ''0''" "digit_char (Suc 0) = CHR ''1''" "digit_char 1 = CHR ''1''"
  "digit_char 2 = CHR ''2''" "digit_char 3 = CHR ''3''" "digit_char 4 = CHR ''4''"
  "digit_char 5 = CHR ''5''" "digit_char 6 = CHR ''6''" "digit_char 7 = CHR ''7''"
  "digit_char 8 = CHR ''8''" "digit_char 9 = CHR ''9''"
  by code_simp+

lemmas show_nat_eval = show_nat.simps digit_char_numerals

lemma show_int_8080: "show_int 8080 = ''8080''"
  by (simp add: show_int_def show_nat_eval)

lemma show_int_70000: "show_int 70000 = ''70000''"
  by (simp add: show_int_def show_nat_eval)

lemma show_int_minus_one: "show_int (- 1) = ''-1''"
  by (simp add: show_int_def show_nat_eval)

lemma info_line_example:
  "info_line ''192.168.1.1'' 8080 = ''TCP Connection: 192.168.1.1:8080'' @ [CHR 0x0A]"
  by (simp add: info_line_def show_int_8080)


lemma ctor_then_c_str:
  assumes "c_str w ip = Inr s"
  shows "c_str (w\<lparr>arrays := arrays w @ [map Some (s @ [NUL])]\<rparr>) (Ptr (length (arrays w)) 0) = Inr s"
  using c_str_fresh_copy [OF c_str_no_NUL [OF assms]] .

lemma ctor_displayInfo:
  assumes "c_str w ip = Inr s"
  shows "\<exists>c w1. TCPConnection_ctor ip p w = Inr (c, w1)
           \<and> displayInfo c w1 = Inr (w1\<lparr>cout := cout w1 @ info_line s p\<rparr>)"
  using ctor_result [OF assms, of p] displayInfo_result ctor_then_c_str [OF assms]
  by simp

lemma string_literal_c_str:
  assumes "NUL \<notin> set s"
  shows "c_str (snd (string_literal s w)) (fst (string_literal s w)) = Inr s"
  using c_str_fresh_copy [OF assms] by (simp add: string_literal_def)

text \<open>
  Claim C4. Constructing a TCP connection from the literal \<^verbatim>\<open>"192.168.1.1"\<close> and the port
  8080, in any state, succeeds, and \<^verbatim>\<open>displayInfo\<close> on the new object then writes exactly
  the line \<^verbatim>\<open>TCP Connection: 192.168.1.1:8080\<close> (closed by the newline of
  \<^verbatim>\<open>std::endl\<close>) to the output and changes nothing else.
\<close>

theorem tcp_display_example:
  "\<exists>conn w1.
     TCPConnection_ctor (fst (string_literal ''192.168.1.1'' w)) 8080
         (snd (string_literal ''192.168.1.1'' w)) = Inr (conn, w1)
     \<and> displayInfo conn w1
         = Inr (w1\<lparr>cout := cout w1 @ ''TCP Connection: 192.168.1.1:8080'' @ [CHR 0x0A]\<rparr>)"
proof -
  have "c_str (snd (string_literal ''192.168.1.1'' w)) (fst (string_literal ''192.168.1.1'' w))
          = Inr ''192.168.1.1''"
    by (rule string_literal_c_str) simp
  from ctor_displayInfo [OF this, of 8080] show ?thesis
    by (simp only: info_line_example)
qed

text \<open>
  Claim C10. The constructor has no precondition on the values it is given and signals
  no error: for every pointer to a C string \<open>s\<close> (the empty one included) and every
  \<^verbatim>\<open>int\<close> port \<open>p\<close> (negative ones and those above 65535 included), construction
  returns an object, and \<^verbatim>\<open>displayInfo\<close> on it writes exactly
  \<^verbatim>\<open>TCP Connection: \<close>\<open>s\<close>\<^verbatim>\<open>:\<close>\<open>p\<close> with that address and that port, unvalidated.
\<close>

theorem ctor_accepts_everything:
  assumes "c_str w ip = Inr s"
  shows "\<exists>c w1. TCPConnection_ctor ip p w = Inr (c, w1)
           \<and> displayInfo c w1
               = Inr (w1\<lparr>cout := cout w1 @ ''TCP Connection: '' @ s @ '':''
                                     @ show_int (sint p) @ [CHR 0x0A]\<rparr>)"
  using ctor_displayInfo [OF assms, of p] by (simp add: info_line_def)

theorem ctor_accepts_everything_witness:
  "c_str \<lparr>arrays = [[Some NUL]], objects = [], cout = []\<rparr> (Ptr 0 0) = Inr []
   \<and> (\<exists>c w1. TCPConnection_ctor (Ptr 0 0) (- 1) \<lparr>arrays = [[Some NUL]], objects = [], cout = []\<rparr>
                = Inr (c, w1)
        \<and> displayInfo c w1 = Inr (w1\<lparr>cout := cout w1 @ ''TCP Connection: :-1'' @ [CHR 0x0A]\<rparr>))"
proof -
  have h: "c_str \<lparr>arrays = [[Some NUL]], objects = [], cout = []\<rparr> (Ptr 0 0) = Inr []"
    by (simp add: c_str_def)
  from ctor_accepts_everything [OF h, of "- 1"] h show ?thesis
    by (simp add: show_int_minus_one)
qed

text \<open>
  Claim C3 says that construction fails with \<^verbatim>\<open>InvalidArgument\<close> when the port is
  outside 0..65535 or the address is empty. The constructor checks neither: with the
  port 70000 it returns an object holding 70000.
\<close>

theorem ctor_port_70000_counterexample:
  "TCPConnection_ctor (Ptr 0 0) 70000
      \<lparr>arrays = [map Some (''10.0.0.1'' @ [NUL])], objects = [], cout = []\<rparr>
    = Inr (\<lparr>ipAddress = Ptr 1 0, port = 70000\<rparr>,
           \<lparr>arrays = [map Some (''10.0.0.1'' @ [NUL]), map Some (''10.0.0.1'' @ [NUL])],
            objects = [], cout = []\<rparr>)"
proof -
  have h: "c_str \<lparr>arrays = [map Some (''10.0.0.1'' @ [NUL])], objects = [], cout = []\<rparr> (Ptr 0 0)
             = Inr ''10.0.0.1''"
    by (simp add: c_str_def)
  from ctor_result [OF h, of 70000] show ?thesis
    by simp
qed

text \<open>
  Claim C3, amended. Construction never fails with \<^verbatim>\<open>InvalidArgument\<close>: for every
  address text, the empty one included, and every \<^verbatim>\<open>int\<close> port, 70000 included, the
  constructor returns an object that holds that port and its own copy of that address:
  the address is in a new array, which is not one of the arrays that existed before
  (the caller's text is in one of those) and holds the characters of the text and the
  closing NUL.
\<close>

theorem ctor_never_rejects:
  assumes "c_str w ip = Inr s"
  shows "\<exists>c w1. TCPConnection_ctor ip p w = Inr (c, w1)
           \<and> port c = p \<and> c_str w1 (ipAddress c) = Inr s
           \<and> points_into w ip \<and> \<not> points_into w (ipAddress c)
           \<and> ipAddress c = Ptr (length (arrays w)) 0
           \<and> arrays w1 = arrays w @ [map Some (s @ [NUL])]"
proof -
  have "points_into w ip"
    using c_str_old_array [OF assms] by (auto simp: points_into_def)
  with ctor_result [OF assms, of p] ctor_then_c_str [OF assms] show ?thesis
    by (simp add: points_into_def)
qed

theorem ctor_never_rejects_witness:
  "c_str \<lparr>arrays = [[Some NUL]], objects = [], cout = []\<rparr> (Ptr 0 0) = Inr []
   \<and> (\<exists>c w1. TCPConnection_ctor (Ptr 0 0) 70000 \<lparr>arrays = [[Some NUL]], objects = [], cout = []\<rparr>
                = Inr (c, w1)
        \<and> port c = 70000 \<and> c_str w1 (ipAddress c) = Inr []
        \<and> ipAddress c = Ptr 1 0 \<and> arrays w1 = [[Some NUL], [Some NUL]])"
proof -
  have h: "c_str \<lparr>arrays = [[Some NUL]], objects = [], cout = []\<rparr> (Ptr 0 0) = Inr []"
    by (simp add: c_str_def)
  from ctor_never_rejects [OF h, of 70000] h show ?thesis
    by auto
qed

lemma sublist_info_line_address: "sublist s (info_line s p)"
  unfolding info_line_def by (rule sublist_appendI)

lemma sublist_info_line_port: "sublist (show_int (sint p)) (info_line s p)"
proof -
  have "info_line s p = (''TCP Connection: '' @ s @ '':'') @ show_int (sint p) @ [CHR 0x0A]"
    by (simp add: info_line_def)
  then show ?thesis
    by (simp only: sublist_appendI)
qed

text \<open>
  Claim C5. For every non-empty address \<open>s\<close> and every port from 0 to 65535, the line
  that \<^verbatim>\<open>displayInfo\<close> writes for the connection constructed from them contains the
  address and the decimal numeral of the port as contiguous parts.
\<close>

theorem displayInfo_contains_address_and_port:
  assumes "c_str w ip = Inr s" and "s \<noteq> []" and "0 \<le> sint p" and "sint p \<le> 65535"
  shows "\<exists>c w1 line. TCPConnection_ctor ip p w = Inr (c, w1)
           \<and> displayInfo c w1 = Inr (w1\<lparr>cout := cout w1 @ line\<rparr>)
           \<and> sublist s line \<and> sublist (show_nat (nat (sint p))) line"
proof -
  from ctor_displayInfo [OF assms(1), of p] obtain c w1 where
    "TCPConnection_ctor ip p w = Inr (c, w1)"
    "displayInfo c w1 = Inr (w1\<lparr>cout := cout w1 @ info_line s p\<rparr>)"
    by blast
  moreover have "sublist s (info_line s p)"
    by (rule sublist_info_line_address)
  moreover have "sublist (show_nat (nat (sint p))) (info_line s p)"
    using sublist_info_line_port [of p s] assms(3) by (simp add: show_int_def)
  ultimately show ?thesis by blast
qed


theorem displayInfo_contains_address_and_port_witness:
  "c_str \<lparr>arrays = [map Some (''10.0.0.1'' @ [NUL])], objects = [], cout = []\<rparr> (Ptr 0 0)
     = Inr ''10.0.0.1''
   \<and> ''10.0.0.1'' \<noteq> [] \<and> 0 \<le> sint (443 :: 32 word) \<and> sint (443 :: 32 word) \<le> 65535
   \<and> (\<exists>c w1 line.
         TCPConnection_ctor (Ptr 0 0) 443
             \<lparr>arrays = [map Some (''10.0.0.1'' @ [NUL])], objects = [], cout = []\<rparr> = Inr (c, w1)
         \<and> displayInfo c w1 = Inr (w1\<lparr>cout := cout w1 @ line\<rparr>)
         \<and> sublist ''10.0.0.1'' line \<and> sublist ''443'' line)"
proof -
  let ?w = "\<lparr>arrays = [map Some (''10.0.0.1'' @ [NUL])], objects = [], cout = []\<rparr>"
  have h: "c_str ?w (Ptr 0 0) = Inr ''10.0.0.1''"
    by (simp add: c_str_def)
  have n: "show_nat (nat (sint (443 :: 32 word))) = ''443''"
    by (simp add: show_nat_eval)
  from displayInfo_contains_address_and_port [OF h, of 443] n h show ?thesis
    by simp
qed

text \<open>
  Claim C8. \<^verbatim>\<open>displayInfo\<close> is a query: when it returns, no character array and no
  object of the state has changed, the address of the connection reads as before, and
  the output has only grown by what the call wrote. (The port is a member of the
  object, which the \<^verbatim>\<open>const\<close> method receives and cannot give back changed.)
\<close>

theorem displayInfo_is_query:
  assumes "displayInfo c w = Inr w'"
  shows "arrays w' = arrays w \<and> objects w' = objects w
         \<and> c_str w' (ipAddress c) = c_str w (ipAddress c)
         \<and> (\<exists>line. cout w' = cout w @ line)"
  using displayInfo_InrD [OF assms] by auto

theorem displayInfo_is_query_witness:
  "displayInfo \<lparr>ipAddress = Ptr 0 0, port = 8080\<rparr>
      \<lparr>arrays = [map Some (''192.168.1.1'' @ [NUL])], objects = [], cout = ''x''\<rparr>
     = Inr \<lparr>arrays = [map Some (''192.168.1.1'' @ [NUL])], objects = [],
            cout = ''x'' @ ''TCP Connection: 192.168.1.1:8080'' @ [CHR 0x0A]\<rparr>
   \<and> c_str \<lparr>arrays = [map Some (''192.168.1.1'' @ [NUL])], objects = [],
            cout = ''x'' @ ''TCP Connection: 192.168.1.1:8080'' @ [CHR 0x0A]\<rparr> (Ptr 0 0)
     = c_str \<lparr>arrays = [map Some (''192.168.1.1'' @ [NUL])], objects = [], cout = ''x''\<rparr> (Ptr 0 0)"
proof -
  let ?w = "\<lparr>arrays = [map Some (''192.168.1.1'' @ [NUL])], objects = [], cout = ''x''\<rparr>"
  let ?c = "\<lparr>ipAddress = Ptr 0 0, port = 8080\<rparr>"
  have h: "c_str ?w (ipAddress ?c) = Inr ''192.168.1.1''"
    by (simp add: c_str_def)
  have d: "displayInfo ?c ?w = Inr (?w\<lparr>cout := cout ?w @ info_line ''192.168.1.1'' 8080\<rparr>)"
    using displayInfo_result [OF h] by simp
  from displayInfo_is_query [OF d] d show ?thesis
    by (simp add: info_line_example)
qed

lemma store_char_other_array:
  assumes "store_char q ch w = Inr w'" and "points_into w0 q" and "length (arrays w0) \<le> n"
  shows "length (arrays w') = length (arrays w) \<and> arrays w' ! n = arrays w ! n"
  using assms
  by (auto simp: store_char_def points_into_def split: ptr.splits if_splits)

lemma store_chars_other_array:
  assumes "store_chars ps w = Inr w'"
    and "\<forall>(q, ch) \<in> set ps. points_into w0 q" and "length (arrays w0) \<le> n"
  shows "length (arrays w') = length (arrays w) \<and> arrays w' ! n = arrays w ! n"
  using assms
proof (induction ps arbitrary: w)
  case Nil
  then show ?case by simp
next
  case (Cons a ps)
  obtain q ch where a: "a = (q, ch)" by (cases a)
  from Cons.prems(1) a obtain w1 where
    w1: "store_char q ch w = Inr w1" "store_chars ps w1 = Inr w'"
    by (auto split: sum.splits)
  from Cons.prems(2) a have q: "points_into w0 q" by simp
  from Cons.prems(2) have rest: "\<forall>(q, ch) \<in> set ps. points_into w0 q" by simp
  from store_char_other_array [OF w1(1) q Cons.prems(3)]
    Cons.IH [OF w1(2) rest Cons.prems(3)]
  show ?case by simp
qed

text \<open>
  Claim C9. The constructor copies its argument into storage of its own: the caller's
  text lies in an array of the state before the call, the new object's \<^verbatim>\<open>ipAddress\<close>
  is a new array that did not exist before, of length \<^verbatim>\<open>strlen(ip) + 1\<close>, holding the
  characters of the argument and the closing NUL; the arrays that existed before are
  unchanged. Whatever is written afterwards into the arrays that existed before the
  call (the caller's buffer among them), \<^verbatim>\<open>displayInfo\<close> still writes the line for the
  address as it was at construction.
\<close>

theorem ctor_owns_a_copy:
  assumes "c_str w ip = Inr s"
  shows "\<exists>c w1. TCPConnection_ctor ip p w = Inr (c, w1)
           \<and> points_into w ip \<and> ipAddress c = Ptr (length (arrays w)) 0
           \<and> arrays w1 = arrays w @ [map Some (s @ [NUL])]
           \<and> length (arrays w1 ! length (arrays w)) = length s + 1
           \<and> (\<forall>ps w2. (\<forall>(q, ch) \<in> set ps. points_into w q)
                  \<longrightarrow> store_chars ps w1 = Inr w2
                  \<longrightarrow> displayInfo c w2 = Inr (w2\<lparr>cout := cout w2 @ info_line s p\<rparr>))"
proof -
  let ?n = "length (arrays w)"
  let ?c = "\<lparr>ipAddress = Ptr ?n 0, port = p\<rparr>"
  let ?w1 = "w\<lparr>arrays := arrays w @ [map Some (s @ [NUL])]\<rparr>"
  have ctor: "TCPConnection_ctor ip p w = Inr (?c, ?w1)"
    by (rule ctor_result [OF assms])
  have ip: "points_into w ip"
    using c_str_old_array [OF assms] by (auto simp: points_into_def)
  have own: "c_str ?w1 (Ptr ?n 0) = Inr s"
    by (rule ctor_then_c_str [OF assms])
  have later: "displayInfo ?c w2 = Inr (w2\<lparr>cout := cout w2 @ info_line s p\<rparr>)"
    if ps: "\<forall>(q, ch) \<in> set ps. points_into w q" and run: "store_chars ps ?w1 = Inr w2"
    for ps w2
  proof -
    from store_chars_other_array [OF run ps order_refl]
    have same: "length (arrays w2) = length (arrays ?w1)" "arrays w2 ! ?n = arrays ?w1 ! ?n"
      by simp_all
    have "c_str w2 (Ptr ?n 0) = c_str ?w1 (Ptr ?n 0)"
      by (rule c_str_cong_array [OF refl _ _ same(2)]) (simp_all add: same(1))
    with own have "c_str w2 (ipAddress ?c) = Inr s" by simp
    from displayInfo_result [OF this] show ?thesis by simp
  qed
  show ?thesis
    using ctor ip later by (intro exI [of _ ?c] exI [of _ ?w1]) simp
qed

theorem ctor_owns_a_copy_witness:
  "\<exists>c w1 w2.
     TCPConnection_ctor (Ptr 0 0) 80
         \<lparr>arrays = [map Some (''1.2.3.4'' @ [NUL])], objects = [], cout = []\<rparr> = Inr (c, w1)
     \<and> store_chars [(Ptr 0 0, CHR ''9'')] w1 = Inr w2
     \<and> c_str w2 (Ptr 0 0) = Inr ''9.2.3.4''
     \<and> displayInfo c w2 = Inr (w2\<lparr>cout := cout w2 @ ''TCP Connection: 1.2.3.4:80'' @ [CHR 0x0A]\<rparr>)"
proof -
  let ?w = "\<lparr>arrays = [map Some (''1.2.3.4'' @ [NUL])], objects = [], cout = []\<rparr>"
  have h: "c_str ?w (Ptr 0 0) = Inr ''1.2.3.4''"
    by (simp add: c_str_def)
  from ctor_owns_a_copy [OF h, of 80] obtain c w1 where
    ctor: "TCPConnection_ctor (Ptr 0 0) 80 ?w = Inr (c, w1)"
    and arr: "arrays w1 = arrays ?w @ [map Some (''1.2.3.4'' @ [NUL])]"
    and later: "\<And>ps w2. (\<forall>(q, ch) \<in> set ps. points_into ?w q)
                  \<Longrightarrow> store_chars ps w1 = Inr w2
                  \<Longrightarrow> displayInfo c w2 = Inr (w2\<lparr>cout := cout w2 @ info_line ''1.2.3.4'' 80\<rparr>)"
    by blast
  let ?w2 = "w1\<lparr>arrays := [map Some (''9.2.3.4'' @ [NUL]), map Some (''1.2.3.4'' @ [NUL])]\<rparr>"
  have st: "store_chars [(Ptr 0 0, CHR ''9'')] w1 = Inr ?w2"
    by (simp add: store_char_def arr)
  have rd: "c_str ?w2 (Ptr 0 0) = Inr ''9.2.3.4''"
    by (simp add: c_str_def)
  have "displayInfo c ?w2 = Inr (?w2\<lparr>cout := cout ?w2 @ info_line ''1.2.3.4'' 80\<rparr>)"
    by (rule later [OF _ st]) (simp add: points_into_def)
  moreover have "info_line ''1.2.3.4'' 80 = ''TCP Connection: 1.2.3.4:80'' @ [CHR 0x0A]"
    by (simp add: info_line_def show_int_def show_nat_eval)
  ultimately show ?thesis
    using ctor st rd by (intro exI [of _ c] exI [of _ w1] exI [of _ ?w2]) simp
qed

text \<open>
  Claim C7. On a run in which \<^verbatim>\<open>printSystemInfo\<close> returns, having added some text
  \<open>t\<close> to the output, the program returns the exit status 0, and its output is the
  banner line \<^verbatim>\<open>=== Network Monitor ===\<close> first, then \<open>t\<close>, then the line of the
  connection, then the closing line.
\<close>

theorem main_banner_first_exit_0:
  assumes "printSystemInfo (endl (cout_text ''=== Network Monitor ==='' w)) = Inr w1"
    and "cout w1 = cout w @ ''=== Network Monitor ==='' @ [CHR 0x0A] @ t"
  shows "\<exists>w'. main printSystemInfo w = Inr (0, w')
           \<and> cout w' = cout w @ ''=== Network Monitor ==='' @ [CHR 0x0A] @ t
                 @ ''TCP Connection: 192.168.1.1:8080'' @ [CHR 0x0A]
                 @ ''Program completed successfully!'' @ [CHR 0x0A]"
proof -
  let ?lit = "string_literal ''192.168.1.1'' w1"
  have "c_str (snd ?lit) (fst ?lit) = Inr ''192.168.1.1''"
    by (rule string_literal_c_str) simp
  from ctor_displayInfo [OF this, of 8080] obtain conn w3 where
    ctor: "TCPConnection_ctor (fst ?lit) 8080 (snd ?lit) = Inr (conn, w3)"
    and disp: "displayInfo conn w3 = Inr (w3\<lparr>cout := cout w3 @ info_line ''192.168.1.1'' 8080\<rparr>)"
    by blast
  have w3: "cout w3 = cout w1"
    using ctor ctor_result [OF \<open>c_str (snd ?lit) (fst ?lit) = Inr ''192.168.1.1''\<close>, of 8080]
    by (auto simp: string_literal_def)
  have "main printSystemInfo w
          = Inr (0, endl (cout_text ''Program completed successfully!''
                   (w3\<lparr>cout := cout w3 @ info_line ''192.168.1.1'' 8080\<rparr>)))"
    unfolding main_def assms(1) sum.case
    using ctor disp by (simp add: case_prod_beta)
  then show ?thesis
    by (simp add: endl_def cout_text_def w3 assms(2) info_line_example)
qed

theorem main_banner_first_exit_0_witness:
  "\<exists>w'. main Inr \<lparr>arrays = [], objects = [], cout = []\<rparr> = Inr (0, w')
      \<and> cout w' = ''=== Network Monitor ==='' @ [CHR 0x0A]
            @ ''TCP Connection: 192.168.1.1:8080'' @ [CHR 0x0A]
            @ ''Program completed successfully!'' @ [CHR 0x0A]"
  using main_banner_first_exit_0 [of Inr "\<lparr>arrays = [], objects = [], cout = []\<rparr>" _ "[]"]
  by (simp add: endl_def cout_text_def)


lemma example_ctor:
  "TCPConnection_ctor (Ptr 0 0) 8080
      \<lparr>arrays = [map Some (''192.168.1.1'' @ [NUL])], objects = [], cout = []\<rparr>
    = Inr (\<lparr>ipAddress = Ptr 1 0, port = 8080\<rparr>,
           \<lparr>arrays = [map Some (''192.168.1.1'' @ [NUL]), map Some (''192.168.1.1'' @ [NUL])],
            objects = [], cout = []\<rparr>)"
proof -
  have h: "c_str \<lparr>arrays = [map Some (''192.168.1.1'' @ [NUL])], objects = [], cout = []\<rparr> (Ptr 0 0)
             = Inr ''192.168.1.1''"
    by (simp add: c_str_def)
  from ctor_result [OF h, of 8080] show ?thesis
    by simp
qed

lemma info_line_X: "info_line ''X92.168.1.1'' 8080 = ''TCP Connection: X92.168.1.1:8080'' @ [CHR 0x0A]"
  by (simp add: info_line_def show_int_8080)

text \<open>The copy is the original, member for member, for every connection.\<close>

lemma TCPConnection_copy_same: "TCPConnection_copy a = a"
  by (simp add: TCPConnection_copy_def)

text \<open>
  Claim C2 asks that a duplicate of an endpoint share no storage with the original.
  The copy of a \<^verbatim>\<open>TCPConnection\<close> is value-equal to the original (it displays the
  same line) but its \<^verbatim>\<open>ipAddress\<close> is the original's pointer: after one character of
  the original's address array is overwritten, the copy displays the changed address
  too.
\<close>

theorem TCPConnection_copy_shares_address:
  "\<exists>a w1 w2.
     TCPConnection_ctor (Ptr 0 0) 8080
         \<lparr>arrays = [map Some (''192.168.1.1'' @ [NUL])], objects = [], cout = []\<rparr> = Inr (a, w1)
     \<and> ipAddress (TCPConnection_copy a) = ipAddress a
     \<and> displayInfo (TCPConnection_copy a) w1
         = Inr (w1\<lparr>cout := ''TCP Connection: 192.168.1.1:8080'' @ [CHR 0x0A]\<rparr>)
     \<and> store_char (ipAddress a) (CHR ''X'') w1 = Inr w2
     \<and> displayInfo a w2 = Inr (w2\<lparr>cout := ''TCP Connection: X92.168.1.1:8080'' @ [CHR 0x0A]\<rparr>)
     \<and> displayInfo (TCPConnection_copy a) w2
         = Inr (w2\<lparr>cout := ''TCP Connection: X92.168.1.1:8080'' @ [CHR 0x0A]\<rparr>)"
proof -
  let ?a = "\<lparr>ipAddress = Ptr 1 0, port = 8080\<rparr>"
  let ?w1 = "\<lparr>arrays = [map Some (''192.168.1.1'' @ [NUL]), map Some (''192.168.1.1'' @ [NUL])],
              objects = [], cout = []\<rparr>"
  let ?w2 = "\<lparr>arrays = [map Some (''192.168.1.1'' @ [NUL]), map Some (''X92.168.1.1'' @ [NUL])],
              objects = [], cout = []\<rparr>"
  have c1: "c_str ?w1 (ipAddress (TCPConnection_copy ?a)) = Inr ''192.168.1.1''"
    by (simp add: c_str_def TCPConnection_copy_def)
  have c2: "c_str ?w2 (ipAddress (TCPConnection_copy ?a)) = Inr ''X92.168.1.1''"
    by (simp add: c_str_def TCPConnection_copy_def)
  have c3: "c_str ?w2 (ipAddress ?a) = Inr ''X92.168.1.1''"
    by (simp add: c_str_def)
  have st: "store_char (ipAddress ?a) (CHR ''X'') ?w1 = Inr ?w2"
    by (simp add: store_char_def)
  have al: "ipAddress (TCPConnection_copy ?a) = ipAddress ?a"
    by (simp add: TCPConnection_copy_def)
  have d1: "displayInfo (TCPConnection_copy ?a) ?w1
             = Inr (?w1\<lparr>cout := ''TCP Connection: 192.168.1.1:8080'' @ [CHR 0x0A]\<rparr>)"
    using displayInfo_result [OF c1] by (simp add: info_line_example TCPConnection_copy_def)
  have d2: "displayInfo (TCPConnection_copy ?a) ?w2
             = Inr (?w2\<lparr>cout := ''TCP Connection: X92.168.1.1:8080'' @ [CHR 0x0A]\<rparr>)"
    using displayInfo_result [OF c2] by (simp add: info_line_X TCPConnection_copy_def)
  have d3: "displayInfo ?a ?w2
             = Inr (?w2\<lparr>cout := ''TCP Connection: X92.168.1.1:8080'' @ [CHR 0x0A]\<rparr>)"
    using displayInfo_result [OF c3] by (simp add: info_line_X)
  show ?thesis
    using example_ctor al d1 st d2 d3
    by (intro exI [of _ ?a] exI [of _ ?w1] exI [of _ ?w2] conjI)
qed

section \<open>The collection of connections\<close>

text \<open>
  A slot the loop fills names a new object that is equal, member for member, to the
  object of the source; no character array is created.
\<close>

lemma new_TCPConnection_copy_shares:
  assumes "k < length (objects w)" and "new_TCPConnection_copy k w = (q, w1)"
  shows "q = length (objects w) \<and> arrays w1 = arrays w
         \<and> objects w1 ! q = objects w ! k
         \<and> ipAddress (objects w1 ! q) = ipAddress (objects w1 ! k)"
  using assms by (auto simp: new_TCPConnection_copy_def TCPConnection_copy_same nth_append)



section \<open>Validation of IPv4 addresses\<close>

lemma digit_char_is_digit: "d < 10 \<Longrightarrow> is_digit (digit_char d)"
  by (simp add: is_digit_def digit_char_def)

lemma digit_val_digit_char: "d < 10 \<Longrightarrow> digit_val (digit_char d) = d"
  by (simp add: digit_val_def digit_char_def)

lemma digit_val_less: "is_digit ch \<Longrightarrow> digit_val ch < 10"
  by (auto simp: is_digit_def digit_val_def)

lemma digit_char_digit_val: "is_digit ch \<Longrightarrow> digit_char (digit_val ch) = ch"
  by (simp add: is_digit_def digit_val_def digit_char_def)

lemma dot_not_digit: "\<not> is_digit (CHR ''.'')"
  by (simp add: is_digit_def)

lemma show_nat_small: "n < 10 \<Longrightarrow> show_nat n = [digit_char n]"
  by (simp add: show_nat.simps)

lemma show_nat_large: "10 \<le> n \<Longrightarrow> show_nat n = show_nat (n div 10) @ [digit_char (n mod 10)]"
  by (subst show_nat.simps) simp

lemma show_nat_snoc:
  assumes "m \<noteq> 0" "d < 10"
  shows "show_nat (m * 10 + d) = show_nat m @ [digit_char d]"
proof -
  have "10 \<le> m * 10 + d" using assms(1) by simp
  from show_nat_large [OF this] assms(2) show ?thesis by simp
qed

lemma show_nat_not_Nil: "show_nat n \<noteq> []"
  by (subst show_nat.simps) simp

lemma show_nat_digits: "c \<in> set (show_nat n) \<Longrightarrow> is_digit c"
proof (induction n arbitrary: c rule: show_nat.induct)
  case (1 n)
  show ?case
  proof (cases "n < 10")
    case True
    with "1.prems" show ?thesis
      by (simp add: show_nat_small digit_char_is_digit)
  next
    case False
    with "1.prems" have "c \<in> set (show_nat (n div 10)) \<or> c = digit_char (n mod 10)"
      by (auto simp: show_nat_large)
    with "1.IH" [OF False] show ?thesis
      by (auto simp: digit_char_is_digit)
  qed
qed

lemma dec_val_snoc: "dec_val (ds @ [c]) = dec_val ds * 10 + digit_val c"
  by (simp add: dec_val_def)

lemma dec_val_show_nat: "dec_val (show_nat n) = n"
proof (induction n rule: show_nat.induct)
  case (1 n)
  show ?case
  proof (cases "n < 10")
    case True
    then show ?thesis
      by (simp add: show_nat_small dec_val_def digit_val_digit_char)
  next
    case False
    with "1.IH" show ?thesis
      by (simp add: show_nat_large dec_val_snoc digit_val_digit_char)
  qed
qed

lemma show_nat_inject: "show_nat m = show_nat n \<Longrightarrow> m = n"
  by (metis dec_val_show_nat)

lemma dec_val_append_le: "dec_val xs \<le> dec_val (xs @ ds)"
proof (induction ds rule: rev_induct)
  case Nil
  then show ?case by simp
next
  case (snoc c ds)
  have "dec_val (xs @ ds @ [c]) = dec_val (xs @ ds) * 10 + digit_val c"
    using dec_val_snoc [of "xs @ ds" c] by simp
  with snoc show ?case by simp
qed

lemma show_nat_prefix_le:
  assumes "show_nat n = show_nat m @ ds"
  shows "m \<le> n"
proof -
  have "m = dec_val (show_nat m)" by (simp add: dec_val_show_nat)
  also have "\<dots> \<le> dec_val (show_nat m @ ds)" by (rule dec_val_append_le)
  also have "\<dots> = n" by (simp add: dec_val_show_nat flip: assms)
  finally show ?thesis .
qed

lemma show_nat_hd_nonzero: "n \<noteq> 0 \<Longrightarrow> hd (show_nat n) \<noteq> digit_char 0"
proof (induction n rule: show_nat.induct)
  case (1 n)
  show ?case
  proof (cases "n < 10")
    case True
    with "1.prems" digit_val_digit_char [of n] digit_val_digit_char [of 0] show ?thesis
      by (auto simp: show_nat_small)
  next
    case False
    then have "n div 10 \<noteq> 0" by simp
    from "1.IH" [OF False this] False show ?thesis
      by (simp add: show_nat_large show_nat_not_Nil)
  qed
qed

lemma show_nat_leading_zero:
  assumes "show_nat n = digit_char 0 # ds"
  shows "n = 0 \<and> ds = []"
proof -
  have "n = 0"
    using show_nat_hd_nonzero [of n] assms by auto
  with assms show ?thesis by (simp add: show_nat_small)
qed


lemma inet_pton4_0_or_1: "inet_pton4 saw k tp src = 0 \<or> inet_pton4 saw k tp src = 1"
  by (induction saw k tp src rule: inet_pton4.induct) (auto simp: Let_def dot_not_digit)

lemma octet_end_Nil: "octet_end k [] = (\<not> k < 4)"
  by (simp add: octet_end_def)

lemma octet_end_Cons:
  "octet_end k (ch # rest) = (ch = CHR ''.'' \<and> k \<noteq> 4 \<and> inet_pton4 False k 0 rest = 1)"
  by (auto simp: octet_end_def)

lemma inet_pton4_in_octet:
  assumes "tp \<le> 255"
  shows "inet_pton4 True k tp src = 1
         \<longleftrightarrow> (\<exists>ds rest. src = ds @ rest \<and> (\<exists>n\<le>255. show_nat n = show_nat tp @ ds)
                \<and> octet_end k rest)"
  using assms
proof (induction src arbitrary: tp)
  case Nil
  have "\<exists>n\<le>255. show_nat n = show_nat tp @ []"
    using Nil by auto
  then show ?case
    by (simp add: octet_end_Nil)
next
  case (Cons ch src)
  let ?new = "tp * 10 + digit_val ch"
  let ?R = "\<exists>ds rest. ch # src = ds @ rest \<and> (\<exists>n\<le>255. show_nat n = show_nat tp @ ds)
              \<and> octet_end k rest"
  consider (digit) "is_digit ch" | (dot) "ch = CHR ''.''" | (other) "\<not> is_digit ch" "ch \<noteq> CHR ''.''"
    by blast
  then show ?case
  proof cases
    case digit
    then have ch: "digit_char (digit_val ch) = ch" and dv: "digit_val ch < 10"
      by (simp_all add: digit_char_digit_val digit_val_less)
    have notdot: "ch \<noteq> CHR ''.''"
      using digit dot_not_digit by auto
    have step: "inet_pton4 True k tp (ch # src) = 1
                \<longleftrightarrow> tp \<noteq> 0 \<and> ?new \<le> 255 \<and> inet_pton4 True k ?new src = 1"
      using digit by (simp add: Let_def)
    show ?thesis
    proof
      assume "inet_pton4 True k tp (ch # src) = 1"
      with step have tp: "tp \<noteq> 0" and new: "?new \<le> 255"
        and run: "inet_pton4 True k ?new src = 1"
        by simp_all
      from Cons.IH [OF new] run obtain ds rest n where
        src: "src = ds @ rest" and n: "n \<le> 255" "show_nat n = show_nat ?new @ ds"
        and fin: "octet_end k rest"
        by blast
      have "show_nat ?new = show_nat tp @ [ch]"
        using show_nat_snoc [OF tp dv] ch by simp
      with n(2) have "show_nat n = show_nat tp @ (ch # ds)" by simp
      with src n(1) fin show ?R
        by (intro exI [of _ "ch # ds"] exI [of _ rest]) auto
    next
      assume ?R
      then obtain ds rest n where
        src: "ch # src = ds @ rest" and n: "n \<le> 255" "show_nat n = show_nat tp @ ds"
        and fin: "octet_end k rest"
        by blast
      have "ds \<noteq> []"
      proof
        assume "ds = []"
        with src have "rest = ch # src" by simp
        with fin notdot show False by (simp add: octet_end_Cons)
      qed
      with src obtain ds' where ds: "ds = ch # ds'" "src = ds' @ rest"
        by (cases ds) auto
      have tp: "tp \<noteq> 0"
      proof
        assume "tp = 0"
        with n(2) ds(1) have "show_nat n = digit_char 0 # ch # ds'"
          by (simp add: show_nat_small)
        from show_nat_leading_zero [OF this] show False by simp
      qed
      have snoc: "show_nat ?new = show_nat tp @ [ch]"
        using show_nat_snoc [OF tp dv] ch by simp
      with n(2) ds(1) have ext: "show_nat n = show_nat ?new @ ds'" by simp
      from show_nat_prefix_le [OF ext] n(1) have new: "?new \<le> 255" by simp
      have "inet_pton4 True k ?new src = 1"
        using Cons.IH [OF new] ds(2) n(1) ext fin by blast
      with step tp new show "inet_pton4 True k tp (ch # src) = 1" by simp
    qed
  next
    case dot
    have step: "inet_pton4 True k tp (ch # src) = 1
                \<longleftrightarrow> k \<noteq> 4 \<and> inet_pton4 False k 0 src = 1"
      using dot dot_not_digit by simp
    show ?thesis
    proof
      assume "inet_pton4 True k tp (ch # src) = 1"
      with step have "octet_end k (ch # src)"
        using dot by (simp add: octet_end_Cons)
      moreover have "\<exists>n\<le>255. show_nat n = show_nat tp @ []"
        using Cons.prems by auto
      ultimately show ?R
        by (intro exI [of _ "[]"] exI [of _ "ch # src"]) simp
    next
      assume ?R
      then obtain ds rest n where
        src: "ch # src = ds @ rest" and n: "n \<le> 255" "show_nat n = show_nat tp @ ds"
        and fin: "octet_end k rest"
        by blast
      have "ds = []"
      proof (rule ccontr)
        assume "ds \<noteq> []"
        with src have "ch \<in> set ds" by (cases ds) auto
        then have "ch \<in> set (show_nat n)" using n(2) by simp
        from show_nat_digits [OF this] dot dot_not_digit show False by simp
      qed
      with src fin have "octet_end k (ch # src)" by simp
      then have "k \<noteq> 4 \<and> inet_pton4 False k 0 src = 1"
        by (simp add: octet_end_Cons)
      with step show "inet_pton4 True k tp (ch # src) = 1"
        by blast
    qed
  next
    case other
    have step: "inet_pton4 True k tp (ch # src) = 0"
      using other by simp
    have "\<not> ?R"
    proof
      assume ?R
      then obtain ds rest n where
        src: "ch # src = ds @ rest" and n: "n \<le> 255" "show_nat n = show_nat tp @ ds"
        and fin: "octet_end k rest"
        by blast
      show False
      proof (cases ds)
        case Nil
        with src have "rest = ch # src" by simp
        with fin other(2) show False by (simp add: octet_end_Cons)
      next
        case (Cons c ds')
        with src have "ch \<in> set ds" by auto
        then have "ch \<in> set (show_nat n)" using n(2) by simp
        from show_nat_digits [OF this] other(1) show False by simp
      qed
    qed
    with step show ?thesis by simp
  qed
qed

lemma inet_pton4_octet_start:
  assumes "k < 4"
  shows "inet_pton4 False k 0 src = 1
         \<longleftrightarrow> (\<exists>n rest. n \<le> 255 \<and> src = show_nat n @ rest \<and> octet_end (Suc k) rest)"
proof (cases src)
  case Nil
  with assms show ?thesis by (simp add: show_nat_not_Nil)
next
  case (Cons ch src')
  let ?R = "\<exists>n rest. n \<le> 255 \<and> src = show_nat n @ rest \<and> octet_end (Suc k) rest"
  show ?thesis
  proof (cases "is_digit ch")
    case True
    then have ch: "digit_char (digit_val ch) = ch" and dv: "digit_val ch < 10"
      by (simp_all add: digit_char_digit_val digit_val_less)
    have one: "show_nat (digit_val ch) = [ch]"
      using dv ch by (simp add: show_nat_small)
    have le: "digit_val ch \<le> 255" using dv by simp
    have step: "inet_pton4 False k 0 src = 1 \<longleftrightarrow> inet_pton4 True (Suc k) (digit_val ch) src' = 1"
      using Cons True assms dv by (simp add: Let_def)
    show ?thesis
    proof
      assume "inet_pton4 False k 0 src = 1"
      with step inet_pton4_in_octet [OF le, of "Suc k" src'] obtain ds rest n where
        "src' = ds @ rest" "n \<le> 255" "show_nat n = show_nat (digit_val ch) @ ds"
        "octet_end (Suc k) rest"
        by blast
      with Cons one show ?R
        by (intro exI [of _ n] exI [of _ rest]) simp
    next
      assume ?R
      then obtain n rest where n: "n \<le> 255" "src = show_nat n @ rest"
        and fin: "octet_end (Suc k) rest"
        by blast
      obtain c ds where cds: "show_nat n = c # ds"
        using show_nat_not_Nil [of n] by (cases "show_nat n") auto
      with n(2) Cons have "c = ch" "src' = ds @ rest" by simp_all
      with cds one have "show_nat n = show_nat (digit_val ch) @ ds" by simp
      with \<open>src' = ds @ rest\<close> n(1) fin
      have "inet_pton4 True (Suc k) (digit_val ch) src' = 1"
        using inet_pton4_in_octet [OF le, of "Suc k" src'] by blast
      with step show "inet_pton4 False k 0 src = 1" by simp
    qed
  next
    case False
    have step: "inet_pton4 False k 0 src = 0"
      using Cons False by simp
    have "\<not> ?R"
    proof
      assume ?R
      then obtain n rest where n: "src = show_nat n @ rest" by blast
      obtain c ds where cds: "show_nat n = c # ds"
        using show_nat_not_Nil [of n] by (cases "show_nat n") auto
      with n Cons have "ch \<in> set (show_nat n)" by simp
      from show_nat_digits [OF this] False show False by simp
    qed
    with step show ?thesis by simp
  qed
qed

lemma inet_pton_AF_INET_iff:
  "inet_pton_AF_INET t = 1
   \<longleftrightarrow> (\<exists>a b c d. a \<le> 255 \<and> b \<le> 255 \<and> c \<le> 255 \<and> d \<le> 255 \<and> t = dotted_quad a b c d)"
  (is "?L \<longleftrightarrow> ?R")
proof
  let ?k1 = "Suc 0" let ?k2 = "Suc ?k1" let ?k3 = "Suc ?k2" let ?k4 = "Suc ?k3"
  assume ?L
  then have "inet_pton4 False 0 0 t = 1" by (simp add: inet_pton_AF_INET_def)
  then obtain a r1 where a: "a \<le> 255" "t = show_nat a @ r1" "octet_end ?k1 r1"
    using inet_pton4_octet_start [of 0 t] by auto
  from a(3) obtain m1 where m1: "r1 = CHR ''.'' # m1" "inet_pton4 False ?k1 0 m1 = 1"
    by (auto simp: octet_end_def)
  then obtain b r2 where b: "b \<le> 255" "m1 = show_nat b @ r2" "octet_end ?k2 r2"
    using inet_pton4_octet_start [of ?k1 m1] by auto
  from b(3) obtain m2 where m2: "r2 = CHR ''.'' # m2" "inet_pton4 False ?k2 0 m2 = 1"
    by (auto simp: octet_end_def)
  then obtain c r3 where c: "c \<le> 255" "m2 = show_nat c @ r3" "octet_end ?k3 r3"
    using inet_pton4_octet_start [of ?k2 m2] by auto
  from c(3) obtain m3 where m3: "r3 = CHR ''.'' # m3" "inet_pton4 False ?k3 0 m3 = 1"
    by (auto simp: octet_end_def)
  then obtain d r4 where d: "d \<le> 255" "m3 = show_nat d @ r4" "octet_end ?k4 r4"
    using inet_pton4_octet_start [of ?k3 m3] by auto
  from d(3) have "r4 = []" by (simp add: octet_end_def)
  with a b c d m1 m2 m3 have "t = dotted_quad a b c d"
    by (simp add: dotted_quad_def)
  with a(1) b(1) c(1) d(1) show ?R by blast
next
  let ?k1 = "Suc 0" let ?k2 = "Suc ?k1" let ?k3 = "Suc ?k2" let ?k4 = "Suc ?k3"
  assume ?R
  then obtain a b c d where le: "a \<le> 255" "b \<le> 255" "c \<le> 255" "d \<le> 255"
    and t: "t = dotted_quad a b c d"
    by blast
  let ?s3 = "show_nat d"
  let ?s2 = "show_nat c @ CHR ''.'' # ?s3"
  let ?s1 = "show_nat b @ CHR ''.'' # ?s2"
  let ?s0 = "show_nat a @ CHR ''.'' # ?s1"
  have "octet_end ?k4 []" by (simp add: octet_end_def)
  with le(4) have "\<exists>n rest. n \<le> 255 \<and> ?s3 = show_nat n @ rest \<and> octet_end ?k4 rest"
    by (intro exI [of _ d] exI [of _ "[]"]) simp
  then have "inet_pton4 False ?k3 0 ?s3 = 1"
    using inet_pton4_octet_start [of ?k3 ?s3] by simp
  then have "octet_end ?k3 (CHR ''.'' # ?s3)" by (simp add: octet_end_def)
  with le(3) have "\<exists>n rest. n \<le> 255 \<and> ?s2 = show_nat n @ rest \<and> octet_end ?k3 rest"
    by (intro exI [of _ c] exI [of _ "CHR ''.'' # ?s3"]) simp
  then have "inet_pton4 False ?k2 0 ?s2 = 1"
    using inet_pton4_octet_start [of ?k2 ?s2] by simp
  then have "octet_end ?k2 (CHR ''.'' # ?s2)" by (simp add: octet_end_def)
  with le(2) have "\<exists>n rest. n \<le> 255 \<and> ?s1 = show_nat n @ rest \<and> octet_end ?k2 rest"
    by (intro exI [of _ b] exI [of _ "CHR ''.'' # ?s2"]) simp
  then have "inet_pton4 False ?k1 0 ?s1 = 1"
    using inet_pton4_octet_start [of ?k1 ?s1] by simp
  then have "octet_end ?k1 (CHR ''.'' # ?s1)" by (simp add: octet_end_def)
  with le(1) have "\<exists>n rest. n \<le> 255 \<and> ?s0 = show_nat n @ rest \<and> octet_end ?k1 rest"
    by (intro exI [of _ a] exI [of _ "CHR ''.'' # ?s1"]) simp
  then have "inet_pton4 False 0 0 ?s0 = 1"
    using inet_pton4_octet_start [of 0 ?s0] by simp
  with t show ?L by (simp add: inet_pton_AF_INET_def dotted_quad_def)
qed

lemma isValidIPv4_iff_1: "isValidIPv4 t \<longleftrightarrow> inet_pton_AF_INET t = 1"
  using inet_pton4_0_or_1 [of False 0 0 t]
  by (auto simp: isValidIPv4_def inet_pton_AF_INET_def)

lemma leading_zero_rejected: "\<not> isValidIPv4 ''01.1.1.1''"
  by (simp add: isValidIPv4_def inet_pton_AF_INET_def is_digit_def digit_val_def)

text \<open>
  Every text \<^verbatim>\<open>isValidIPv4\<close> accepts is four dot-separated decimal octets in the sense
  of the spec: that half of the spec's equivalence holds.
\<close>

lemma split_dots_not_Nil: "split_dots t \<noteq> []"
  by (induction t) (auto split: list.splits)

lemma split_dots_no_dot: "CHR ''.'' \<notin> set xs \<Longrightarrow> split_dots xs = [xs]"
  by (induction xs) auto

lemma split_dots_append_dot:
  "CHR ''.'' \<notin> set xs \<Longrightarrow> split_dots (xs @ CHR ''.'' # ys) = xs # split_dots ys"
  by (induction xs) auto

lemma show_nat_no_dot: "CHR ''.'' \<notin> set (show_nat n)"
  using show_nat_digits [of "CHR ''.''" n] dot_not_digit by blast

lemma decimal_octet_show_nat: "n \<le> 255 \<Longrightarrow> decimal_octet (show_nat n)"
  using show_nat_digits [of _ n]
  by (auto simp: decimal_octet_def show_nat_not_Nil dec_val_show_nat list_all_iff)

lemma split_dots_dotted_quad:
  "split_dots (dotted_quad a b c d) = [show_nat a, show_nat b, show_nat c, show_nat d]"
  by (simp add: dotted_quad_def split_dots_append_dot split_dots_no_dot show_nat_no_dot)

lemma isValidIPv4_four_decimal_octets:
  assumes "isValidIPv4 t"
  shows "four_decimal_octets t"
proof -
  from assms obtain a b c d where
    "a \<le> 255" "b \<le> 255" "c \<le> 255" "d \<le> 255" "t = dotted_quad a b c d"
    using isValidIPv4_iff_1 [of t] inet_pton_AF_INET_iff [of t] by blast
  then show ?thesis
    by (simp add: four_decimal_octets_def split_dots_dotted_quad decimal_octet_show_nat)
qed

text \<open>
  Claim C6 says that \<^verbatim>\<open>isValidIPv4\<close> is true of every text that is four dot-separated
  decimal octets, each in [0,255]. The text \<^verbatim>\<open>192.168.01.1\<close> is such a text (the third
  octet, \<^verbatim>\<open>01\<close>, denotes 1), and \<^verbatim>\<open>isValidIPv4\<close> is false of it: the loop returns 0 at a
  digit that follows a leading zero.
\<close>

theorem isValidIPv4_leading_zero_counterexample:
  "four_decimal_octets ''192.168.01.1'' \<and> \<not> isValidIPv4 ''192.168.01.1''"
proof
  show "four_decimal_octets ''192.168.01.1''"
    by (simp add: four_decimal_octets_def decimal_octet_def dec_val_def is_digit_def
        digit_val_def)
  show "\<not> isValidIPv4 ''192.168.01.1''"
    by (simp add: isValidIPv4_def inet_pton_AF_INET_def is_digit_def digit_val_def)
qed

text \<open>
  Claim C6, amended. \<^verbatim>\<open>isValidIPv4\<close> is true of a text exactly when the text is four
  decimal numerals without leading zeros, of numbers from 0 to 255, separated by single
  dots, with nothing before, after or between them. It is true of \<^verbatim>\<open>192.168.1.1\<close> and
  false of \<^verbatim>\<open>256.1.1.1\<close> and of \<^verbatim>\<open>1.2.3\<close>. The function is total: every text gets \<open>True\<close>
  or \<open>False\<close>, none an error.
\<close>

theorem isValidIPv4_iff_dotted_quad:
  "(isValidIPv4 t
      \<longleftrightarrow> (\<exists>a b c d. a \<le> 255 \<and> b \<le> 255 \<and> c \<le> 255 \<and> d \<le> 255 \<and> t = dotted_quad a b c d))
   \<and> isValidIPv4 ''192.168.1.1''
   \<and> \<not> isValidIPv4 ''256.1.1.1''
   \<and> \<not> isValidIPv4 ''1.2.3''"
proof -
  have "isValidIPv4 ''192.168.1.1''"
    by (simp add: isValidIPv4_def inet_pton_AF_INET_def is_digit_def digit_val_def)
  moreover have "\<not> isValidIPv4 ''256.1.1.1''"
    by (simp add: isValidIPv4_def inet_pton_AF_INET_def is_digit_def digit_val_def)
  moreover have "\<not> isValidIPv4 ''1.2.3''"
    by (simp add: isValidIPv4_def inet_pton_AF_INET_def is_digit_def digit_val_def)
  ultimately show ?thesis
    using isValidIPv4_iff_1 [of t] inet_pton_AF_INET_iff [of t] by simp
qed

end
